theory Spec2Isabelle
  imports Main "HOL-Library.Sublist"
begin

section \<open>Python strings\<close>

text \<open>
  A Python \<open>str\<close> is a sequence of Unicode code points; a code point is a natural
  number. ASCII literals are written \<open>ascii ''...''\<close>.
\<close>

type_synonym ustr = "nat list"

definition ascii :: "string \<Rightarrow> ustr" where
  "ascii s = map of_char s"

text \<open>
  \<open>str.isspace\<close> on one character, which is also what \<open>\s\<close> matches in a \<open>str\<close>
  pattern and what \<open>str.strip()\<close> removes: U+0009..U+000D, U+001C..U+0020, U+0085,
  U+00A0, U+1680, U+2000..U+200A, U+2028, U+2029, U+202F, U+205F, U+3000.
\<close>

definition is_space :: "nat \<Rightarrow> bool" where
  "is_space c \<longleftrightarrow>
     (9 \<le> c \<and> c \<le> 13) \<or> (28 \<le> c \<and> c \<le> 32) \<or> c = 133 \<or> c = 160 \<or> c = 5760 \<or>
     (8192 \<le> c \<and> c \<le> 8202) \<or> c = 8232 \<or> c = 8233 \<or> c = 8239 \<or> c = 8287 \<or> c = 12288"

text \<open>
  The parts of the Unicode character database and of the HTML5 entity table that the
  program reaches through \<open>re\<close>, \<open>str.lower\<close> and \<open>html.unescape\<close>. They are data of the
  Python runtime, not of this program, and are taken as parameters; everything on ASCII
  is written out below.
  \<^item> \<open>alnum_hi c\<close>: \<open>str.isalnum\<close> of a code point \<open>c \<ge> 128\<close>;
  \<^item> \<open>tolower_full c\<close>: the full lowercase mapping of a code point \<open>c \<ge> 128\<close> other
    than U+03A3 (one to three code points);
  \<^item> \<open>final_sigma pre post\<close>: whether a capital sigma between \<open>pre\<close> and \<open>post\<close> is in
    final position (it then lowers to U+03C2, otherwise to U+03C3);
  \<^item> \<open>replace_charref g\<close>: \<open>html._replace_charref\<close> on group 1 of a match, that is the
    text of a character reference after its \<open>&\<close>.
\<close>

record tables =
  alnum_hi :: "nat \<Rightarrow> bool"
  tolower_full :: "nat \<Rightarrow> ustr"
  final_sigma :: "ustr \<Rightarrow> ustr \<Rightarrow> bool"
  replace_charref :: "ustr \<Rightarrow> ustr"

text \<open>\<open>\w\<close> under \<open>re.UNICODE\<close>: alphanumeric or underscore.\<close>

definition is_word :: "tables \<Rightarrow> nat \<Rightarrow> bool" where
  "is_word T c \<longleftrightarrow>
     (if c < 128 then (48 \<le> c \<and> c \<le> 57) \<or> (65 \<le> c \<and> c \<le> 90) \<or> c = 95 \<or> (97 \<le> c \<and> c \<le> 122)
      else alnum_hi T c)"

text \<open>
  A lowercase ASCII letter of a pattern compiled with \<open>re.IGNORECASE\<close>. Of the letters
  this program's patterns use (h, t, p, s, w, r) each matches itself and its capital,
  and \<open>s\<close> also matches U+017F (long s).
\<close>

definition ci :: "nat \<Rightarrow> nat \<Rightarrow> bool" where
  "ci l c \<longleftrightarrow> c = l \<or> c + 32 = l \<or> (l = 115 \<and> c = 383)"

definition lit :: "nat \<Rightarrow> nat \<Rightarrow> bool" where
  "lit l c \<longleftrightarrow> c = l"

section \<open>Regular-expression substitution\<close>

text \<open>
  \<open>lits ps s\<close>: a sequence of one-character items matched at the start of \<open>s\<close>; the
  result is the number of characters consumed.
\<close>

fun lits :: "(nat \<Rightarrow> bool) list \<Rightarrow> ustr \<Rightarrow> nat option" where
  "lits [] s = Some 0"
| "lits (p # ps) [] = None"
| "lits (p # ps) (c # cs) = (if p c then map_option Suc (lits ps cs) else None)"

text \<open>
  A greedy run \<open>p+\<close> (at least one character) that ends its pattern, after a prefix
  that consumed \<open>n\<close> characters.
\<close>

definition then_run :: "(nat \<Rightarrow> bool) \<Rightarrow> ustr \<Rightarrow> nat option \<Rightarrow> nat option" where
  "then_run p s m =
     (case m of None \<Rightarrow> None
      | Some n \<Rightarrow> (case takeWhile p (drop n s) of [] \<Rightarrow> None | r # rs \<Rightarrow> Some (n + length (r # rs))))"

text \<open>Alternatives in priority order: the first that matches wins.\<close>

fun first_some :: "nat option list \<Rightarrow> nat option" where
  "first_some [] = None"
| "first_some (None # ms) = first_some ms"
| "first_some (Some n # ms) = Some n"

text \<open>
  \<open>pattern.sub(repl, s)\<close>: scan from the left; where the pattern matches, emit the
  replacement of the matched text and go on after the match, otherwise copy one
  character. \<open>m\<close> gives the length of the match at the start of a suffix. No pattern of
  this program matches the empty string.
\<close>

fun re_sub :: "(ustr \<Rightarrow> nat option) \<Rightarrow> (ustr \<Rightarrow> ustr) \<Rightarrow> ustr \<Rightarrow> ustr" where
  "re_sub m rep [] = []"
| "re_sub m rep (c # cs) =
     (case m (c # cs) of
        Some (Suc k) \<Rightarrow> rep (c # take k cs) @ re_sub m rep (drop k cs)
      | _ \<Rightarrow> c # re_sub m rep cs)"

subsection \<open>The patterns\<close>

text \<open>\<open>URL_RE = https?://\S+|www\.\S+\<close>, \<open>re.IGNORECASE\<close>.\<close>

definition url_match :: "ustr \<Rightarrow> nat option" where
  "url_match s = first_some
     [then_run (\<lambda>c. \<not> is_space c) s
        (lits [ci 104, ci 116, ci 116, ci 112, ci 115, lit 58, lit 47, lit 47] s),
      then_run (\<lambda>c. \<not> is_space c) s
        (lits [ci 104, ci 116, ci 116, ci 112, lit 58, lit 47, lit 47] s),
      then_run (\<lambda>c. \<not> is_space c) s
        (lits [ci 119, ci 119, ci 119, lit 46] s)]"

text \<open>\<open>MENTION_RE = @\w+\<close>.\<close>

definition mention_match :: "tables \<Rightarrow> ustr \<Rightarrow> nat option" where
  "mention_match T s = then_run (is_word T) s (lits [lit 64] s)"

text \<open>\<open>HASHTAG_RE = #(\w+)\<close>; group 1 is the match without its first character.\<close>

definition hashtag_match :: "tables \<Rightarrow> ustr \<Rightarrow> nat option" where
  "hashtag_match T s = then_run (is_word T) s (lits [lit 35] s)"

text \<open>\<open>MULTISPACE_RE = \s+\<close>.\<close>

definition multispace_match :: "ustr \<Rightarrow> nat option" where
  "multispace_match s = then_run is_space s (Some 0)"

text \<open>
  \<open>RT_RE = ^\s*rt\s+\<close>, \<open>re.IGNORECASE\<close>, not multiline: it can match at the start of
  the string only, so \<open>RT_RE.sub("", s)\<close> removes at most that one match.
\<close>

definition rt_match :: "ustr \<Rightarrow> nat option" where
  "rt_match s =
     (let n = length (takeWhile is_space s)
      in then_run is_space s (map_option (\<lambda>k. n + k) (lits [ci 114, ci 116] (drop n s))))"

definition sub_rt :: "ustr \<Rightarrow> ustr" where
  "sub_rt s = (case rt_match s of None \<Rightarrow> s | Some n \<Rightarrow> drop n s)"

section \<open>html.unescape\<close>

text \<open>
  \<open>_charref = &(#[0-9]+;?|#[xX][0-9a-fA-F]+;?|[^\t\n\f <&#;]{1,32};?)\<close>.
\<close>

definition is_digit :: "nat \<Rightarrow> bool" where
  "is_digit c \<longleftrightarrow> 48 \<le> c \<and> c \<le> 57"

definition is_hexdigit :: "nat \<Rightarrow> bool" where
  "is_hexdigit c \<longleftrightarrow> (48 \<le> c \<and> c \<le> 57) \<or> (65 \<le> c \<and> c \<le> 70) \<or> (97 \<le> c \<and> c \<le> 102)"

definition is_namechar :: "nat \<Rightarrow> bool" where
  "is_namechar c \<longleftrightarrow> c \<notin> {9, 10, 12, 32, 60, 38, 35, 59}"

text \<open>An optional \<open>;\<close> after a prefix of \<open>n\<close> characters.\<close>

definition opt_semicolon :: "ustr \<Rightarrow> nat option \<Rightarrow> nat option" where
  "opt_semicolon s m =
     (case m of None \<Rightarrow> None
      | Some n \<Rightarrow> (case drop n s of [] \<Rightarrow> Some n | d # ds \<Rightarrow> if d = 59 then Some (Suc n) else Some n))"

text \<open>The run \<open>[^\t\n\f <&#;]{1,32}\<close> after the \<open>&\<close>: greedy, at most 32 characters.\<close>

definition name_run :: "ustr \<Rightarrow> nat option" where
  "name_run s =
     (case takeWhile is_namechar (take 32 (drop 1 s)) of [] \<Rightarrow> None | r # rs \<Rightarrow> Some (1 + length (r # rs)))"

definition charref_match :: "ustr \<Rightarrow> nat option" where
  "charref_match s = first_some
     [opt_semicolon s (then_run is_digit s (lits [lit 38, lit 35] s)),
      opt_semicolon s (then_run is_hexdigit s (lits [lit 38, lit 35, (\<lambda>c. c = 120 \<or> c = 88)] s)),
      opt_semicolon s (case lits [lit 38] s of None \<Rightarrow> None | Some n \<Rightarrow> name_run s)]"

definition unescape :: "tables \<Rightarrow> ustr \<Rightarrow> ustr" where
  "unescape T s =
     (if 38 \<notin> set s then s
      else re_sub charref_match (\<lambda>m. replace_charref T (tl m)) s)"

section \<open>str.strip and str.lower\<close>

definition strip :: "ustr \<Rightarrow> ustr" where
  "strip s = rev (dropWhile is_space (rev (dropWhile is_space s)))"

text \<open>
  \<open>str.lower\<close>: character by character, with the text before and after at hand for the
  one context-sensitive rule (capital sigma).
\<close>

definition lower_char :: "tables \<Rightarrow> ustr \<Rightarrow> nat \<Rightarrow> ustr \<Rightarrow> ustr" where
  "lower_char T pre c post =
     (if c < 128 then [if 65 \<le> c \<and> c \<le> 90 then c + 32 else c]
      else if c = 931 then [if final_sigma T pre post then 962 else 963]
      else tolower_full T c)"

fun lower_from :: "tables \<Rightarrow> ustr \<Rightarrow> ustr \<Rightarrow> ustr" where
  "lower_from T pre [] = []"
| "lower_from T pre (c # cs) = lower_char T pre c cs @ lower_from T (pre @ [c]) cs"

definition lower :: "tables \<Rightarrow> ustr \<Rightarrow> ustr" where
  "lower T s = lower_from T [] s"

text \<open>\<open>str.replace(old, new)\<close> for a one-character \<open>old\<close>.\<close>

definition replace_char :: "nat \<Rightarrow> ustr \<Rightarrow> ustr \<Rightarrow> ustr" where
  "replace_char old new s = concat (map (\<lambda>c. if c = old then new else [c]) s)"

section \<open>clean\_text\<close>

text \<open>
  The values \<open>clean_text\<close> is applied to: \<open>None\<close>, a string, or the float NaN that
  pandas puts in an empty cell; \<open>str(nan)\<close> is \<open>"nan"\<close>.
\<close>

datatype pyval = PyNone | PyNaN | PyStr ustr

fun py_str :: "pyval \<Rightarrow> ustr" where
  "py_str PyNone = ascii ''None''"
| "py_str PyNaN = ascii ''nan''"
| "py_str (PyStr s) = s"

definition clean_text :: "tables \<Rightarrow> pyval \<Rightarrow> ustr" where
  "clean_text T text =
     (if text = PyNone then []
      else
        let text = unescape T (py_str text);
            text = sub_rt text;
            text = re_sub url_match (\<lambda>m. []) text;
            text = re_sub (mention_match T) (\<lambda>m. []) text;
            text = re_sub (hashtag_match T) tl text;
            text = replace_char 13 [32] (replace_char 10 [32] text);
            text = re_sub multispace_match (\<lambda>m. [32]) text;
            text = lower T (strip text)
        in text)"

text \<open>
  An instance of the tables that is exact on the characters without case and without
  the alphanumeric property, and knows the one entity \<open>amp;\<close>; used to evaluate the
  program on concrete inputs.
\<close>

definition plain_tables :: tables where
  "plain_tables =
     \<lparr>alnum_hi = (\<lambda>c. False), tolower_full = (\<lambda>c. [c]), final_sigma = (\<lambda>pre post. False),
      replace_charref = (\<lambda>g. if g = ascii ''amp;'' then ascii ''&'' else 38 # g)\<rparr>"

text \<open>Lines 97 to 101 of \<open>clean_text\<close> on their own: the steps that remove or rewrite markup.\<close>

definition removal_steps :: "tables \<Rightarrow> ustr \<Rightarrow> ustr" where
  "removal_steps T s =
     re_sub (hashtag_match T) tl
       (re_sub (mention_match T) (\<lambda>m. [])
          (re_sub url_match (\<lambda>m. []) (sub_rt (unescape T s))))"

section \<open>is\_english\<close>

text \<open>
  \<open>langdetect.detect\<close> returns a language code or raises \<open>LangDetectException\<close>. It
  draws random samples and the program sets no seed, so one text can get different
  answers in different calls: the detector carries a hidden state \<open>'s\<close>. The module
  global \<open>detect\<close> is the detector, or \<open>None\<close>.
\<close>

datatype detect_result = Lang ustr | LangDetectException

type_synonym 's detector = "'s \<Rightarrow> ustr \<Rightarrow> detect_result \<times> 's"

definition isascii :: "ustr \<Rightarrow> bool" where
  "isascii s = list_all (\<lambda>c. c < 128) s"

definition is_english :: "'s detector option \<Rightarrow> 's \<Rightarrow> ustr \<Rightarrow> bool \<times> 's" where
  "is_english detect s text =
     (if text = [] then (False, s)
      else case detect of
        None \<Rightarrow> (isascii text, s)
      | Some d \<Rightarrow>
          (case d s text of
             (Lang code, s') \<Rightarrow> (code = ascii ''en'', s')
           | (LangDetectException, s') \<Rightarrow> (False, s')))"

text \<open>\<open>Series.apply(is_english)\<close>: one call per row, in row order.\<close>

fun apply_is_english :: "'s detector option \<Rightarrow> 's \<Rightarrow> ustr list \<Rightarrow> bool list \<times> 's" where
  "apply_is_english detect s [] = ([], s)"
| "apply_is_english detect s (t # ts) =
     (case is_english detect s t of
        (b, s1) \<Rightarrow> (case apply_is_english detect s1 ts of (bs, s2) \<Rightarrow> (b # bs, s2)))"

section \<open>Tables\<close>

text \<open>
  A cell of a table read with \<open>dtype=str\<close> is a string, or NaN where the field is
  empty. A row gives a cell to every column name; only the names listed in the table's
  columns belong to it, and no cell under another name is ever read.
\<close>

datatype cell = NaN | S ustr

fun to_py :: "cell \<Rightarrow> pyval" where
  "to_py NaN = PyNaN"
| "to_py (S s) = PyStr s"

text \<open>\<open>bool(x)\<close> for a cell, as \<open>astype(bool)\<close> computes it: NaN is a non-zero float.\<close>

fun truthy :: "cell \<Rightarrow> bool" where
  "truthy NaN = True"
| "truthy (S s) = (s \<noteq> [])"

record raw_table =
  header :: "ustr list"
  body :: "(ustr \<Rightarrow> cell) list"

text \<open>
  A DataFrame: its column names in order, and its rows in order, each with its index
  label. \<open>read_csv\<close> numbers the rows of the file from 0, and the label stays with the
  row through every later selection.
\<close>

record frame =
  columns :: "ustr list"
  rows :: "(nat \<times> (ustr \<Rightarrow> cell)) list"

definition DataFrame :: "raw_table \<Rightarrow> frame" where
  "DataFrame raw = \<lparr>columns = header raw, rows = enumerate 0 (body raw)\<rparr>"

text \<open>
  What a call can do: return, or raise. Renaming can give two columns one name; pandas
  has its own rules for such tables, which are not modelled: the outcome is then
  \<open>Unmodelled\<close> and nothing is claimed about it.
\<close>

datatype exn = KeyError ustr | ReadError

datatype 'a outcome = Returns 'a | Raises exn | Unmodelled

text \<open>\<open>df.drop(columns=names)\<close>.\<close>

definition drop_columns :: "ustr list \<Rightarrow> frame \<Rightarrow> frame" where
  "drop_columns names df = df\<lparr>columns := filter (\<lambda>c. c \<notin> set names) (columns df)\<rparr>"

text \<open>
  \<open>df.rename(columns=m)\<close>: a column named in \<open>m\<close> takes its new name, any other keeps
  its name, and a key of \<open>m\<close> that names no column is ignored.
\<close>

definition new_name :: "(ustr \<rightharpoonup> ustr) \<Rightarrow> ustr \<Rightarrow> ustr" where
  "new_name m c = (case m c of None \<Rightarrow> c | Some n \<Rightarrow> n)"

definition rename :: "(ustr \<rightharpoonup> ustr) \<Rightarrow> frame \<Rightarrow> frame" where
  "rename m df =
     \<lparr>columns = map (new_name m) (columns df),
      rows = map (\<lambda>(i, r). (i, \<lambda>c'. case find (\<lambda>c. new_name m c = c') (columns df) of
                                        None \<Rightarrow> NaN | Some c \<Rightarrow> r c)) (rows df)\<rparr>"

text \<open>\<open>df[c] = v\<close> for a scalar \<open>v\<close>: every row gets \<open>v\<close>; a new column goes last.\<close>

definition assign :: "ustr \<Rightarrow> cell \<Rightarrow> frame \<Rightarrow> frame" where
  "assign c v df =
     \<lparr>columns = (if c \<in> set (columns df) then columns df else columns df @ [c]),
      rows = map (\<lambda>(i, r). (i, r(c := v))) (rows df)\<rparr>"

text \<open>\<open>df[mask]\<close> for a boolean mask with one entry per row.\<close>

definition select_rows :: "bool list \<Rightarrow> frame \<Rightarrow> frame" where
  "select_rows flags df = df\<lparr>rows := map fst (filter snd (zip (rows df) flags))\<rparr>"

text \<open>
  \<open>df.drop_duplicates(subset=[c], keep="first")\<close>: a row goes when its cell in column
  \<open>c\<close> was seen in a row before it. Two NaN cells count as equal.
\<close>

fun drop_seen :: "ustr \<Rightarrow> cell list \<Rightarrow> (nat \<times> (ustr \<Rightarrow> cell)) list \<Rightarrow> (nat \<times> (ustr \<Rightarrow> cell)) list" where
  "drop_seen c seen [] = []"
| "drop_seen c seen ((i, r) # rs) =
     (if r c \<in> set seen then drop_seen c seen rs else (i, r) # drop_seen c (r c # seen) rs)"

definition drop_duplicates :: "ustr \<Rightarrow> frame \<Rightarrow> frame" where
  "drop_duplicates c df = df\<lparr>rows := drop_seen c [] (rows df)\<rparr>"

text \<open>What \<open>to_csv(index=False)\<close> writes below the header: the cells of each row.\<close>

definition records :: "frame \<Rightarrow> cell list list" where
  "records df = map (\<lambda>(i, r). map r (columns df)) (rows df)"

section \<open>load\_and\_clean\<close>

record config =
  path :: ustr
  label :: ustr
  year :: int
  id_col :: ustr
  text_col :: ustr
  date_col :: ustr

text \<open>\<open>str(n)\<close> for an integer: decimal digits, with a minus sign when negative.\<close>

function digits :: "nat \<Rightarrow> ustr" where
  "digits n = (if n < 10 then [48 + n] else digits (n div 10) @ [48 + n mod 10])"
  by pat_completeness auto
termination
  by (relation "measure id") auto

declare digits.simps [simp del]

definition str_int :: "int \<Rightarrow> ustr" where
  "str_int i = (if i < 0 then 45 # digits (nat (- i)) else digits (nat i))"

text \<open>
  What the program runs in: the runtime's tables, the module global \<open>detect\<close>, and what
  \<open>pd.read_csv(path, dtype=str)\<close> gives for each path.
\<close>

record 's world =
  unicode :: tables
  detect :: "'s detector option"
  read_csv :: "ustr \<Rightarrow> raw_table outcome"

text \<open>Lines 122 to 134: placeholder columns dropped, columns renamed, label and year set.\<close>

definition reconcile :: "config \<Rightarrow> frame \<Rightarrow> frame outcome" where
  "reconcile cfg df =
     (let drop_cols = filter (\<lambda>col. prefix (ascii ''Unnamed'') col \<or> strip col = []) (columns df);
          df = (if drop_cols \<noteq> [] then drop_columns drop_cols df else df);
          rename_map = Map.empty(id_col cfg \<mapsto> ascii ''tweet_id'',
                                 date_col cfg \<mapsto> ascii ''created_at'',
                                 text_col cfg \<mapsto> ascii ''text'');
          df = rename rename_map df
      in if \<not> distinct (columns df) then Unmodelled
         else Returns (assign (ascii ''year'') (S (str_int (year cfg)))
                         (assign (ascii ''label'') (S (label cfg)) df)))"

text \<open>
  Line 136, \<open>df["text"] = df["text"].apply(clean_text)\<close>: \<open>df["text"]\<close> raises KeyError
  when no column has that name. The cleaned texts are returned beside the table: they
  are the column the next line reads.
\<close>

definition clean_column :: "tables \<Rightarrow> frame \<Rightarrow> (frame \<times> ustr list) outcome" where
  "clean_column T df =
     (if ascii ''text'' \<notin> set (columns df) then Raises (KeyError (ascii ''text''))
      else
        let texts = map (\<lambda>(i, r). clean_text T (to_py (r (ascii ''text'')))) (rows df)
        in Returns (df\<lparr>rows := map (\<lambda>((i, r), t). (i, r(ascii ''text'' := S t))) (zip (rows df) texts)\<rparr>,
                    texts))"

text \<open>
  Lines 120 to 140: the table read, reconciled, cleaned and filtered. On a table with no
  rows, \<open>apply\<close> at line 138 gives an empty Series of dtype \<open>object\<close>, which pandas does
  not take for a boolean mask; what it does with it instead is not modelled.
\<close>

definition load_and_filter :: "'s world \<Rightarrow> 's \<Rightarrow> config \<Rightarrow> frame outcome \<times> 's" where
  "load_and_filter W s cfg =
     (case read_csv W (path cfg) of
        Raises e \<Rightarrow> (Raises e, s)
      | Unmodelled \<Rightarrow> (Unmodelled, s)
      | Returns raw \<Rightarrow>
          (case reconcile cfg (DataFrame raw) of
             Raises e \<Rightarrow> (Raises e, s)
           | Unmodelled \<Rightarrow> (Unmodelled, s)
           | Returns df \<Rightarrow>
               (case clean_column (unicode W) df of
                  Raises e \<Rightarrow> (Raises e, s)
                | Unmodelled \<Rightarrow> (Unmodelled, s)
                | Returns (df, texts) \<Rightarrow>
                    if texts = [] then (Unmodelled, s)
                    else
                      (case apply_is_english (detect W) s texts of
                         (flags, s') \<Rightarrow>
                           let df = select_rows flags df;
                               df = select_rows (map (\<lambda>(i, r). truthy (r (ascii ''text''))) (rows df)) df
                           in (Returns df, s')))))"

text \<open>Lines 142 to 145.\<close>

definition dedup :: "frame \<Rightarrow> frame" where
  "dedup df =
     (if ascii ''tweet_id'' \<in> set (columns df) then drop_duplicates (ascii ''tweet_id'') df
      else drop_duplicates (ascii ''text'') df)"

text \<open>Lines 147 to 152: a canonical column that is missing is filled with \<open>""\<close>.\<close>

definition canonical :: "ustr list" where
  "canonical = [ascii ''tweet_id'', ascii ''text'', ascii ''label'', ascii ''year'']"

definition fill_missing :: "frame \<Rightarrow> frame" where
  "fill_missing df = fold (\<lambda>col df. if col \<notin> set (columns df) then assign col (S []) df else df) canonical df"

definition project :: "frame \<Rightarrow> frame" where
  "project df = (fill_missing df)\<lparr>columns := canonical\<rparr>"

definition load_and_clean :: "'s world \<Rightarrow> 's \<Rightarrow> config \<Rightarrow> frame outcome \<times> 's" where
  "load_and_clean W s cfg =
     (case load_and_filter W s cfg of
        (Returns df, s') \<Rightarrow> (Returns (project (dedup df)), s')
      | (Raises e, s') \<Rightarrow> (Raises e, s')
      | (Unmodelled, s') \<Rightarrow> (Unmodelled, s'))"

text \<open>The first entry of \<open>FILES\<close>, its path written from the module's directory.\<close>

definition democrat_2020 :: config where
  "democrat_2020 =
     \<lparr>path = ascii ''Data/Democrat_2020.csv'', label = ascii ''democrat'', year = 2020,
      id_col = ascii ''tweet_id'', text_col = ascii ''tweet'', date_col = ascii ''created_at''\<rparr>"

section \<open>Deduplication, as the specification words it\<close>


section \<open>A small world to run the program in\<close>

text \<open>
  A row from its named cells (any other cell is NaN); a detector that answers \<open>en\<close> when
  the text has a lowercase ASCII letter and raises otherwise, counting its calls; a
  world in which every path holds the given table; and three tables.
\<close>

definition row_of :: "(ustr \<times> cell) list \<Rightarrow> ustr \<Rightarrow> cell" where
  "row_of al c = (case map_of al c of None \<Rightarrow> NaN | Some v \<Rightarrow> v)"

definition demo_detect :: "nat detector" where
  "demo_detect n t =
     (if list_ex (\<lambda>c. 97 \<le> c \<and> c \<le> 122) t then Lang (ascii ''en'') else LangDetectException, Suc n)"

definition demo_world :: "raw_table \<Rightarrow> nat world" where
  "demo_world raw = \<lparr>unicode = plain_tables, detect = Some demo_detect, read_csv = (\<lambda>p. Returns raw)\<rparr>"

definition demo_raw :: raw_table where
  "demo_raw =
     \<lparr>header = [ascii ''Unnamed: 0'', ascii ''tweet_id'', ascii ''tweet'', ascii ''created_at''],
      body =
        [row_of [(ascii ''tweet_id'', S (ascii ''1'')), (ascii ''tweet'', S (ascii ''Hi you''))],
         row_of [(ascii ''tweet_id'', S (ascii ''1'')), (ascii ''tweet'', S (ascii ''Other''))],
         row_of [(ascii ''tweet_id'', S (ascii ''2'')), (ascii ''tweet'', S (ascii ''@bob www.x''))],
         row_of [(ascii ''tweet_id'', S (ascii ''3'')), (ascii ''tweet'', S (ascii ''2020!''))],
         row_of [(ascii ''tweet_id'', S (ascii ''4'')), (ascii ''tweet'', S (ascii ''#Vote''))]]\<rparr>"

definition raw_text_only :: raw_table where
  "raw_text_only =
     \<lparr>header = [ascii ''tweet''],
      body = [row_of [(ascii ''tweet'', S (ascii ''Hi you''))]]\<rparr>"

definition raw_no_text :: raw_table where
  "raw_no_text =
     \<lparr>header = [ascii ''tweet_id'', ascii ''created_at''],
      body = [row_of [(ascii ''tweet_id'', S (ascii ''1''))]]\<rparr>"

fun outcome_rows :: "frame outcome \<Rightarrow> (nat \<times> cell list) list outcome" where
  "outcome_rows (Returns df) = Returns (map (\<lambda>(i, r). (i, map r (columns df))) (rows df))"
| "outcome_rows (Raises e) = Raises e"
| "outcome_rows Unmodelled = Unmodelled"

section \<open>Properties of strings\<close>

text \<open>Two whitespace characters next to each other somewhere in the string.\<close>

fun has_space_run :: "ustr \<Rightarrow> bool" where
  "has_space_run (a # b # cs) = ((is_space a \<and> is_space b) \<or> has_space_run (b # cs))"
| "has_space_run cs = False"

text \<open>
  Two scanners used in the proofs. Both accept a string whose whitespace characters are
  all U+0020 and never adjacent; the flag says that a space may not come next (the
  string starts here, or a space came just before). \<open>scan\<close> also refuses a string that
  ends with a space.
\<close>

fun loose :: "bool \<Rightarrow> ustr \<Rightarrow> bool" where
  "loose b [] = True"
| "loose b (c # cs) = (if is_space c then c = 32 \<and> \<not> b \<and> loose True cs else loose False cs)"

fun scan :: "bool \<Rightarrow> ustr \<Rightarrow> bool" where
  "scan b [] = (\<not> b)"
| "scan b (c # cs) = (if is_space c then c = 32 \<and> \<not> b \<and> scan True cs else scan False cs)"

text \<open>
  Two facts of the Unicode character database, as conditions on the tables: the
  lowercase mapping of a character that is not whitespace is not empty and has no
  whitespace in it; and lowercase mappings consist of characters that \<open>str.lower\<close>
  leaves alone.
\<close>

definition lower_keeps_nonspace :: "tables \<Rightarrow> bool" where
  "lower_keeps_nonspace T \<longleftrightarrow>
     (\<forall>c. 128 \<le> c \<and> c \<noteq> 931 \<and> \<not> is_space c \<longrightarrow>
        tolower_full T c \<noteq> [] \<and> (\<forall>d \<in> set (tolower_full T c). \<not> is_space d))"

definition lower_fixed :: "tables \<Rightarrow> nat \<Rightarrow> bool" where
  "lower_fixed T d \<longleftrightarrow> (if d < 128 then \<not> (65 \<le> d \<and> d \<le> 90) else d \<noteq> 931 \<and> tolower_full T d = [d])"

definition lower_stable :: "tables \<Rightarrow> bool" where
  "lower_stable T \<longleftrightarrow>
     (\<forall>c. 128 \<le> c \<and> c \<noteq> 931 \<longrightarrow> (\<forall>d \<in> set (tolower_full T c). lower_fixed T d))
     \<and> lower_fixed T 962 \<and> lower_fixed T 963"

section \<open>Evaluation of \<open>clean_text\<close> on given inputs\<close>

lemmas text_defs =
  clean_text_def ascii_def unescape_def sub_rt_def rt_match_def then_run_def url_match_def
  mention_match_def hashtag_match_def multispace_match_def is_space_def is_word_def ci_def
  lit_def replace_char_def strip_def lower_def lower_char_def charref_match_def
  opt_semicolon_def name_run_def is_digit_def is_hexdigit_def is_namechar_def

text \<open>
  C2 (as the code behaves). On \<open>"RT @alice: Check http://x.co/abc #GoVote!!"\<close> the
  retweet marker \<open>"RT "\<close>, the mention \<open>"@alice"\<close> and the URL are removed, the
  hashtag loses its \<open>#\<close> and case is folded, but the colon that followed the mention
  is punctuation like any other and stays: the result is \<open>": check govote!!"\<close>,
  whatever the Unicode tables are.
\<close>

theorem clean_text_retweet_example:
  "clean_text T (PyStr (ascii ''RT @alice: Check http://x.co/abc #GoVote!!''))
     = ascii '': check govote!!''"
  by (simp add: text_defs)

text \<open>The result is not the string \<open>"check govote!!"\<close>.\<close>

theorem clean_text_retweet_example_counterexample:
  "clean_text plain_tables (PyStr (ascii ''RT @alice: Check http://x.co/abc #GoVote!!''))
     \<noteq> ascii ''check govote!!''"
  by (simp add: text_defs)

text \<open>
  C8. \<open>clean_text("&amp; love this X")\<close> is \<open>"& love this X"\<close> for the emoji U+1F600 and
  for every other non-ASCII character \<open>X\<close> that is not whitespace and has no lowercase
  mapping: the entity is decoded and no step removes the character. What is assumed of
  the runtime's tables is that \<open>amp;\<close> names \<open>&\<close> and that \<open>X\<close> is caseless.
\<close>

theorem clean_text_entity_emoji:
  assumes "128 \<le> e" and "\<not> is_space e" and "e \<noteq> 931"
    and "tolower_full T e = [e]"
    and "replace_charref T (ascii ''amp;'') = ascii ''&''"
  shows "clean_text T (PyStr (ascii ''&amp; love this '' @ [e])) = ascii ''& love this '' @ [e]"
  using assms by (simp add: text_defs)

theorem clean_text_entity_emoji_witness:
  "128 \<le> (128512::nat) \<and> \<not> is_space 128512 \<and> (128512::nat) \<noteq> 931
   \<and> tolower_full plain_tables 128512 = [128512]
   \<and> replace_charref plain_tables (ascii ''amp;'') = ascii ''&''
   \<and> clean_text plain_tables (PyStr (ascii ''&amp; love this '' @ [128512]))
       = ascii ''& love this '' @ [128512]"
  using clean_text_entity_emoji [of 128512 plain_tables]
  by (simp add: plain_tables_def is_space_def)

text \<open>C9. \<open>clean_text(None)\<close> is the empty string.\<close>

theorem clean_text_None: "clean_text T PyNone = []"
  by (simp add: clean_text_def)

section \<open>The shape of cleaned text\<close>

lemma multispace_step:
  "re_sub multispace_match (\<lambda>m. [32]) (c # cs) =
     (if is_space c then 32 # re_sub multispace_match (\<lambda>m. [32]) (dropWhile is_space cs)
      else c # re_sub multispace_match (\<lambda>m. [32]) cs)"
  by (simp add: multispace_match_def then_run_def dropWhile_eq_drop)

lemma multispace_loose_aux:
  "length s \<le> n \<Longrightarrow> (s = [] \<or> \<not> is_space (hd s) \<or> \<not> b) \<Longrightarrow> loose b (re_sub multispace_match (\<lambda>m. [32]) s)"
proof (induction n arbitrary: s b)
  case 0
  then show ?case by simp
next
  case (Suc n)
  show ?case
  proof (cases s)
    case Nil
    then show ?thesis by simp
  next
    case (Cons c cs)
    show ?thesis
    proof (cases "is_space c")
      case True
      have len: "length (dropWhile is_space cs) \<le> n"
        using Suc.prems(1) Cons length_dropWhile_le [of is_space cs] by simp
      have hd: "dropWhile is_space cs = [] \<or> \<not> is_space (hd (dropWhile is_space cs))"
        using hd_dropWhile [of is_space cs] by blast
      have "loose True (re_sub multispace_match (\<lambda>m. [32]) (dropWhile is_space cs))"
        using Suc.IH [OF len, of True] hd by blast
      moreover have "\<not> b" using Suc.prems(2) Cons True by simp
      ultimately show ?thesis
        unfolding Cons multispace_step using True by (simp add: is_space_def)
    next
      case False
      have "loose False (re_sub multispace_match (\<lambda>m. [32]) cs)"
        using Suc.IH [of cs False] Suc.prems(1) Cons by simp
      then show ?thesis unfolding Cons multispace_step using False by simp
    qed
  qed
qed

lemma multispace_loose: "loose False (re_sub multispace_match (\<lambda>m. [32]) s)"
  using multispace_loose_aux [of s "length s" False] by simp

lemma loose_dropWhile: "loose b s \<Longrightarrow> loose True (dropWhile is_space s)"
  by (induction s arbitrary: b) (auto split: if_splits)

lemma loose_scan: "loose b (u @ w) \<Longrightarrow> u \<noteq> [] \<Longrightarrow> \<not> is_space (last u) \<Longrightarrow> scan b u"
proof (induction u arbitrary: b)
  case Nil
  then show ?case by simp
next
  case (Cons c u)
  show ?case
  proof (cases "u = []")
    case True
    then show ?thesis using Cons.prems by simp
  next
    case False
    then show ?thesis using Cons.IH Cons.prems by (auto split: if_splits)
  qed
qed

lemma strip_scan:
  assumes "loose b s"
  shows "strip s = [] \<or> scan True (strip s)"
proof -
  define t where "t = dropWhile is_space s"
  define u where "u = rev (dropWhile is_space (rev t))"
  define w where "w = rev (takeWhile is_space (rev t))"
  have t: "loose True t" unfolding t_def using assms by (rule loose_dropWhile)
  have "rev (takeWhile is_space (rev t) @ dropWhile is_space (rev t)) = t" by simp
  then have dec: "u @ w = t" unfolding u_def w_def by (simp del: takeWhile_dropWhile_id)
  have su: "strip s = u" by (simp add: strip_def u_def t_def)
  show ?thesis
  proof (cases "u = []")
    case True
    then show ?thesis using su by simp
  next
    case False
    then have ne: "dropWhile is_space (rev t) \<noteq> []" by (simp add: u_def)
    have "last u = hd (dropWhile is_space (rev t))"
      unfolding u_def using ne by (simp add: last_rev)
    then have "\<not> is_space (last u)" using hd_dropWhile [OF ne] by simp
    then have "scan True u" using loose_scan [of True u w] t dec False by simp
    then show ?thesis using su by simp
  qed
qed

lemma scan_block_cons: "\<forall>d \<in> set w. \<not> is_space d \<Longrightarrow> \<not> is_space c \<Longrightarrow> scan b (c # w @ s) = scan False s"
  by (induction w arbitrary: b c) auto

lemma scan_block: "w \<noteq> [] \<Longrightarrow> \<forall>d \<in> set w. \<not> is_space d \<Longrightarrow> scan b (w @ s) = scan False s"
  using scan_block_cons [of "tl w" "hd w" b s] by (cases w) auto

lemma lower_char_block:
  assumes "lower_keeps_nonspace T" and "\<not> is_space c"
  shows "lower_char T pre c post \<noteq> [] \<and> (\<forall>d \<in> set (lower_char T pre c post). \<not> is_space d)"
proof (cases "c < 128")
  case True
  then show ?thesis using assms(2) by (auto simp: lower_char_def is_space_def)
next
  case False
  show ?thesis
  proof (cases "c = 931")
    case True
    then show ?thesis by (simp add: lower_char_def is_space_def)
  next
    case ns: False
    have "128 \<le> c" using False by simp
    then have "tolower_full T c \<noteq> [] \<and> (\<forall>d \<in> set (tolower_full T c). \<not> is_space d)"
      using assms ns unfolding lower_keeps_nonspace_def by blast
    then show ?thesis using False ns by (simp add: lower_char_def)
  qed
qed

lemma scan_lower_from:
  assumes "lower_keeps_nonspace T"
  shows "scan b s \<Longrightarrow> scan b (lower_from T pre s)"
proof (induction s arbitrary: b pre)
  case Nil
  then show ?case by simp
next
  case (Cons c cs)
  show ?case
  proof (cases "is_space c")
    case True
    then have c: "c = 32" and nb: "\<not> b" and rest: "scan True cs" using Cons.prems by auto
    have "scan True (lower_from T (pre @ [c]) cs)" using Cons.IH [OF rest] .
    then show ?thesis using c nb by (simp add: lower_char_def is_space_def)
  next
    case False
    then have rest: "scan False cs" using Cons.prems by simp
    have blk: "lower_char T pre c cs \<noteq> [] \<and> (\<forall>d \<in> set (lower_char T pre c cs). \<not> is_space d)"
      using lower_char_block [OF assms False] .
    have "scan False (lower_from T (pre @ [c]) cs)" using Cons.IH [OF rest] .
    then show ?thesis using scan_block [of "lower_char T pre c cs" b] blk by simp
  qed
qed

lemma scan_space_is_32: "scan b s \<Longrightarrow> c \<in> set s \<Longrightarrow> is_space c \<Longrightarrow> c = 32"
  by (induction s arbitrary: b) (auto split: if_splits)

lemma scan_no_run: "scan b s \<Longrightarrow> \<not> has_space_run s"
proof (induction s arbitrary: b)
  case Nil
  then show ?case by simp
next
  case (Cons c cs)
  then show ?case by (cases cs) (auto split: if_splits)
qed

lemma scan_hd: "scan True s \<Longrightarrow> s \<noteq> [] \<and> \<not> is_space (hd s)"
  by (cases s) (auto split: if_splits)

lemma scan_last: "scan b s \<Longrightarrow> s \<noteq> [] \<Longrightarrow> \<not> is_space (last s)"
proof (induction s arbitrary: b)
  case Nil
  then show ?case by simp
next
  case (Cons c cs)
  then show ?case by (cases cs) (auto split: if_splits)
qed

lemma clean_text_shape:
  "clean_text T v = [] \<or> (\<exists>y. clean_text T v = lower T (strip (re_sub multispace_match (\<lambda>m. [32]) y)))"
  by (auto simp: clean_text_def Let_def)

lemma clean_text_scan:
  assumes "lower_keeps_nonspace T"
  shows "clean_text T v = [] \<or> scan True (clean_text T v)"
proof (cases "clean_text T v = []")
  case True
  then show ?thesis by simp
next
  case False
  then obtain y where y: "clean_text T v = lower T (strip (re_sub multispace_match (\<lambda>m. [32]) y))"
    using clean_text_shape [of T v] by blast
  define u where "u = strip (re_sub multispace_match (\<lambda>m. [32]) y)"
  have "u = [] \<or> scan True u"
    unfolding u_def using strip_scan [OF multispace_loose] .
  moreover have "u \<noteq> []" using False y by (auto simp: u_def lower_def)
  ultimately have "scan True (lower_from T [] u)"
    using scan_lower_from [OF assms, of True u "[]"] by simp
  then show ?thesis using y by (simp add: u_def lower_def)
qed

lemma lower_from_fixed: "\<forall>c \<in> set s. lower_fixed T c \<Longrightarrow> lower_from T pre s = s"
  by (induction s arbitrary: pre) (auto simp: lower_fixed_def lower_char_def split: if_splits)

lemma lower_char_fixed:
  assumes "lower_stable T" and "d \<in> set (lower_char T pre c post)"
  shows "lower_fixed T d"
proof (cases "c < 128")
  case True
  then show ?thesis using assms(2) by (auto simp: lower_char_def lower_fixed_def split: if_splits)
next
  case False
  show ?thesis
  proof (cases "c = 931")
    case True
    then show ?thesis using assms by (auto simp: lower_char_def lower_stable_def split: if_splits)
  next
    case ns: False
    have "128 \<le> c" using False by simp
    then have "\<forall>d \<in> set (tolower_full T c). lower_fixed T d"
      using assms(1) ns unfolding lower_stable_def by blast
    then show ?thesis using assms(2) False ns by (simp add: lower_char_def)
  qed
qed

lemma lower_from_all_fixed:
  "lower_stable T \<Longrightarrow> d \<in> set (lower_from T pre s) \<Longrightarrow> lower_fixed T d"
  by (induction s arbitrary: pre) (auto dest: lower_char_fixed)

lemma lower_lower: "lower_stable T \<Longrightarrow> lower T (lower T s) = lower T s"
  unfolding lower_def by (rule lower_from_fixed) (auto dest: lower_from_all_fixed)

lemma replace_char_absent: "old \<notin> set s \<Longrightarrow> replace_char old new s = s"
  by (induction s) (auto simp: replace_char_def)

lemma multispace_scan: "scan b s \<Longrightarrow> re_sub multispace_match (\<lambda>m. [32]) s = s"
proof (induction s arbitrary: b)
  case Nil
  then show ?case by simp
next
  case (Cons c cs)
  show ?case
  proof (cases "is_space c")
    case True
    then have c: "c = 32" and rest: "scan True cs" using Cons.prems by auto
    have "dropWhile is_space cs = cs" using scan_hd [OF rest] by (cases cs) auto
    then show ?thesis unfolding multispace_step using True c Cons.IH [OF rest] by simp
  next
    case False
    then have "scan False cs" using Cons.prems by simp
    then show ?thesis unfolding multispace_step using False Cons.IH by simp
  qed
qed

lemma strip_scan_id: "scan True s \<Longrightarrow> strip s = s"
proof -
  assume sc: "scan True s"
  have ne: "s \<noteq> []" and h: "\<not> is_space (hd s)" using scan_hd [OF sc] by simp_all
  have l: "\<not> is_space (last s)" using scan_last [OF sc ne] .
  have "dropWhile is_space s = s" using ne h by (cases s) auto
  moreover have "dropWhile is_space (rev s) = rev s"
    using ne l by (cases "rev s") (auto simp: last_rev [symmetric] simp del: last_rev)
  ultimately show ?thesis by (simp add: strip_def)
qed

lemma clean_text_steps:
  "clean_text T (PyStr s) =
     lower T (strip (re_sub multispace_match (\<lambda>m. [32])
       (replace_char 13 [32] (replace_char 10 [32] (removal_steps T s)))))"
  by (simp add: clean_text_def removal_steps_def Let_def)

lemma clean_text_lower_fixed:
  assumes "lower_stable T" and "d \<in> set (clean_text T v)"
  shows "lower_fixed T d"
proof -
  have "clean_text T v \<noteq> []" using assms(2) by auto
  then obtain y where "clean_text T v = lower T (strip (re_sub multispace_match (\<lambda>m. [32]) y))"
    using clean_text_shape [of T v] by blast
  then show ?thesis using assms lower_from_all_fixed [of T d "[]"] by (simp add: lower_def)
qed

lemma plain_keeps: "lower_keeps_nonspace plain_tables"
  by (simp add: lower_keeps_nonspace_def plain_tables_def)

lemma plain_stable: "lower_stable plain_tables"
  by (simp add: lower_stable_def lower_fixed_def plain_tables_def)

text \<open>
  C10. Whatever \<open>clean_text\<close> is given, its result neither starts nor ends with
  whitespace, contains no newline and no carriage return, and has no two whitespace
  characters in a row. The tables are assumed to lower a non-whitespace character to a
  non-empty text without whitespace, as Unicode's do.
\<close>

theorem clean_text_whitespace:
  assumes "lower_keeps_nonspace T"
  shows "(clean_text T v \<noteq> [] \<longrightarrow>
            \<not> is_space (hd (clean_text T v)) \<and> \<not> is_space (last (clean_text T v)))
         \<and> 10 \<notin> set (clean_text T v) \<and> 13 \<notin> set (clean_text T v)
         \<and> \<not> has_space_run (clean_text T v)"
proof (cases "clean_text T v = []")
  case True
  then show ?thesis by simp
next
  case False
  then have sc: "scan True (clean_text T v)" using clean_text_scan [OF assms, of v] by simp
  have "10 \<notin> set (clean_text T v)"
    using scan_space_is_32 [OF sc, of 10] by (auto simp: is_space_def)
  moreover have "13 \<notin> set (clean_text T v)"
    using scan_space_is_32 [OF sc, of 13] by (auto simp: is_space_def)
  ultimately show ?thesis
    using scan_hd [OF sc] scan_last [OF sc] scan_no_run [OF sc] by simp
qed


theorem clean_text_whitespace_witness:
  "lower_keeps_nonspace plain_tables
   \<and> clean_text plain_tables (PyStr (ascii ''  Two   words '' @ [10, 160])) \<noteq> []
   \<and> \<not> is_space (hd (clean_text plain_tables (PyStr (ascii ''  Two   words '' @ [10, 160]))))
   \<and> \<not> is_space (last (clean_text plain_tables (PyStr (ascii ''  Two   words '' @ [10, 160]))))
   \<and> 10 \<notin> set (clean_text plain_tables (PyStr (ascii ''  Two   words '' @ [10, 160])))
   \<and> 13 \<notin> set (clean_text plain_tables (PyStr (ascii ''  Two   words '' @ [10, 160])))
   \<and> \<not> has_space_run (clean_text plain_tables (PyStr (ascii ''  Two   words '' @ [10, 160])))"
proof -
  have ne: "clean_text plain_tables (PyStr (ascii ''  Two   words '' @ [10, 160])) \<noteq> []"
    by (simp add: text_defs plain_tables_def)
  show ?thesis
    using clean_text_whitespace [OF plain_keeps, of "PyStr (ascii ''  Two   words '' @ [10, 160])"] ne plain_keeps
    by blast
qed

text \<open>
  C1 (as the code behaves). One pass of \<open>clean_text\<close> can uncover markup that only a
  second pass removes, so the function is not idempotent on all inputs. It is
  idempotent wherever the first pass left nothing for the removal steps (entity
  decoding, retweet marker, URLs, mentions, hashtags) to change: the whitespace and
  case steps are stable on their own results.
\<close>

theorem clean_text_idempotent_when_settled:
  assumes "lower_keeps_nonspace T" and "lower_stable T"
    and "removal_steps T (clean_text T x) = clean_text T x"
  shows "clean_text T (PyStr (clean_text T x)) = clean_text T x"
proof (cases "clean_text T x = []")
  case True
  then show ?thesis by (simp add: text_defs)
next
  case False
  define r where "r = clean_text T x"
  have sc: "scan True r" using clean_text_scan [OF assms(1), of x] False by (simp add: r_def)
  have n10: "10 \<notin> set r" using scan_space_is_32 [OF sc, of 10] by (auto simp: is_space_def)
  have n13: "13 \<notin> set r" using scan_space_is_32 [OF sc, of 13] by (auto simp: is_space_def)
  have fx: "\<forall>c \<in> set r. lower_fixed T c"
    using clean_text_lower_fixed [OF assms(2)] by (simp add: r_def)
  have "clean_text T (PyStr r) = lower T (strip (re_sub multispace_match (\<lambda>m. [32]) r))"
    using assms(3) n10 n13 by (simp add: clean_text_steps r_def [symmetric] replace_char_absent)
  also have "\<dots> = lower T r" by (simp add: multispace_scan [OF sc] strip_scan_id [OF sc])
  also have "\<dots> = r" unfolding lower_def using fx by (rule lower_from_fixed)
  finally show ?thesis by (simp add: r_def)
qed

theorem clean_text_idempotent_when_settled_witness:
  "lower_keeps_nonspace plain_tables \<and> lower_stable plain_tables
   \<and> removal_steps plain_tables (clean_text plain_tables (PyStr (ascii ''RT @alice: Hi #You'')))
       = clean_text plain_tables (PyStr (ascii ''RT @alice: Hi #You''))
   \<and> clean_text plain_tables (PyStr (clean_text plain_tables (PyStr (ascii ''RT @alice: Hi #You''))))
       = clean_text plain_tables (PyStr (ascii ''RT @alice: Hi #You''))"
proof -
  have h: "removal_steps plain_tables (clean_text plain_tables (PyStr (ascii ''RT @alice: Hi #You'')))
       = clean_text plain_tables (PyStr (ascii ''RT @alice: Hi #You''))"
    by (simp add: text_defs removal_steps_def)
  show ?thesis
    using clean_text_idempotent_when_settled [OF plain_keeps plain_stable h] h plain_keeps plain_stable
    by simp
qed


text \<open>
  On \<open>"rt rt a"\<close> the first pass removes one retweet marker and returns \<open>"rt a"\<close>; the
  second pass removes the other and returns \<open>"a"\<close>.
\<close>

theorem clean_text_idempotent_counterexample:
  "clean_text plain_tables (PyStr (clean_text plain_tables (PyStr (ascii ''rt rt a''))))
     \<noteq> clean_text plain_tables (PyStr (ascii ''rt rt a''))"
  by (simp add: text_defs)

section \<open>Tables: lemmas\<close>

lemma ascii_eq [simp]: "ascii a = ascii b \<longleftrightarrow> a = b"
  unfolding ascii_def by (simp add: inj_map_eq_map inj_on_def)

lemma select_rows_subset: "set (rows (select_rows flags df)) \<subseteq> set (rows df)"
  by (auto simp: select_rows_def dest: set_zip_leftD)

lemma select_by_predicate: "map fst (filter snd (zip xs (map p xs))) = filter p xs"
  by (induction xs) auto

lemma select_rows_predicate: "rows (select_rows (map p (rows df)) df) = filter p (rows df)"
  by (simp add: select_rows_def select_by_predicate)

lemma drop_seen_subset: "set (drop_seen c seen rs) \<subseteq> set rs"
  by (induction c seen rs rule: drop_seen.induct) auto

lemma dedup_subset: "set (rows (dedup df)) \<subseteq> set (rows df)"
  using drop_seen_subset by (simp add: dedup_def drop_duplicates_def)

lemma dedup_columns [simp]: "columns (dedup df) = columns df"
  by (simp add: dedup_def drop_duplicates_def)

lemma select_rows_columns [simp]: "columns (select_rows flags df) = columns df"
  by (simp add: select_rows_def)

lemma assign_columns_mono: "set (columns df) \<subseteq> set (columns (assign c v df))"
  by (auto simp: assign_def)

lemma fill_fold_keeps:
  "(i, r') \<in> set (rows (fold (\<lambda>col df. if col \<notin> set (columns df) then assign col (S []) df else df) cs df))
   \<Longrightarrow> \<exists>r. (i, r) \<in> set (rows df) \<and> (\<forall>c \<in> set (columns df). r' c = r c)"
proof (induction cs arbitrary: df)
  case Nil
  then show ?case by auto
next
  case (Cons col cs)
  show ?case
  proof (cases "col \<in> set (columns df)")
    case True
    then show ?thesis using Cons by simp
  next
    case False
    then obtain r1 where r1: "(i, r1) \<in> set (rows (assign col (S []) df))"
        and eq1: "\<forall>c \<in> set (columns (assign col (S []) df)). r' c = r1 c"
      using Cons.IH [of "assign col (S []) df"] Cons.prems by auto
    from r1 obtain r where r: "(i, r) \<in> set (rows df)" and r1_def: "r1 = r(col := S [])"
      by (auto simp: assign_def)
    have "\<forall>c \<in> set (columns df). r' c = r c"
      using eq1 False r1_def by (auto simp: assign_def)
    then show ?thesis using r by blast
  qed
qed

lemma project_keeps:
  "(i, r') \<in> set (rows (project df)) \<Longrightarrow>
     \<exists>r. (i, r) \<in> set (rows df) \<and> (\<forall>c \<in> set (columns df). r' c = r c)"
  using fill_fold_keeps [of i r' canonical df] by (simp add: project_def fill_missing_def)

lemma clean_column_text:
  assumes "clean_column T df = Returns (df', texts)"
  shows "ascii ''text'' \<in> set (columns df')"
    and "(i, r) \<in> set (rows df') \<Longrightarrow> \<exists>t. r (ascii ''text'') = S t"
  using assms by (auto simp: clean_column_def Let_def split: if_splits dest!: set_zip_leftD)

lemma load_and_filter_text:
  assumes "load_and_filter W s cfg = (Returns F, s')"
  shows "ascii ''text'' \<in> set (columns F)"
    and "(i, r) \<in> set (rows F) \<Longrightarrow> \<exists>t. r (ascii ''text'') = S t \<and> t \<noteq> []"
proof -
  obtain raw df df' texts flags where
        cc: "clean_column (unicode W) df = Returns (df', texts)"
    and F: "F = select_rows (map (\<lambda>(i, r). truthy (r (ascii ''text''))) (rows (select_rows flags df')))
                  (select_rows flags df')"
    using assms
    by (auto simp: load_and_filter_def Let_def split: outcome.splits prod.splits if_splits)
  show "ascii ''text'' \<in> set (columns F)"
    using clean_column_text(1) [OF cc] by (simp add: F)
  assume "(i, r) \<in> set (rows F)"
  then have "(i, r) \<in> set (filter (\<lambda>(i, r). truthy (r (ascii ''text''))) (rows (select_rows flags df')))"
    unfolding F by (simp only: select_rows_predicate)
  then have tr: "truthy (r (ascii ''text''))" and mem: "(i, r) \<in> set (rows df')"
    using select_rows_subset [of flags df'] by auto
  obtain t where "r (ascii ''text'') = S t" using clean_column_text(2) [OF cc mem] by blast
  then show "\<exists>t. r (ascii ''text'') = S t \<and> t \<noteq> []" using tr by simp
qed

lemma assign_index [simp]: "map fst (rows (assign c v df)) = map fst (rows df)"
  by (simp add: assign_def case_prod_unfold comp_def)

lemma rename_index [simp]: "map fst (rows (rename m df)) = map fst (rows df)"
  by (simp add: rename_def case_prod_unfold comp_def)

lemma drop_columns_rows [simp]: "rows (drop_columns names df) = rows df"
  by (simp add: drop_columns_def)

lemma reconcile_index:
  "reconcile cfg df0 = Returns df \<Longrightarrow> map fst (rows df) = map fst (rows df0)"
  by (auto simp: reconcile_def Let_def split: if_splits)

lemma clean_column_index:
  assumes "clean_column T df = Returns (df', texts)"
  shows "map fst (rows df') = map fst (rows df)" and "length texts = length (rows df)"
proof -
  have t: "texts = map (\<lambda>(i, r). clean_text T (to_py (r (ascii ''text'')))) (rows df)"
    and d: "rows df' = map (\<lambda>((i, r), t). (i, r(ascii ''text'' := S t))) (zip (rows df) texts)"
    using assms by (auto simp: clean_column_def Let_def split: if_splits)
  show len: "length texts = length (rows df)" by (simp add: t)
  have "map fst (rows df') = map (fst \<circ> fst) (zip (rows df) texts)"
    unfolding d by (simp add: case_prod_unfold comp_def)
  also have "\<dots> = map fst (map fst (zip (rows df) texts))" by simp
  also have "\<dots> = map fst (rows df)" using len by (simp del: map_map)
  finally show "map fst (rows df') = map fst (rows df)" .
qed

lemma DataFrame_index: "map fst (rows (DataFrame raw)) = [0..<length (body raw)]"
  by (simp add: DataFrame_def)

lemma apply_is_english_fst:
  "fst (apply_is_english d s (t # ts))
     = fst (is_english d s t) # fst (apply_is_english d (snd (is_english d s t)) ts)"
  by (simp split: prod.splits)

lemma apply_is_english_snd:
  "snd (apply_is_english d s (t # ts)) = snd (apply_is_english d (snd (is_english d s t)) ts)"
  by (simp split: prod.splits)

lemma apply_is_english_length: "length (fst (apply_is_english d s ts)) = length ts"
  by (induction ts arbitrary: s) (simp_all add: apply_is_english_fst del: apply_is_english.simps(2))

lemma apply_is_english_nth:
  "i < length ts \<Longrightarrow>
     fst (apply_is_english d s ts) ! i
       = fst (is_english d (snd (apply_is_english d s (take i ts))) (ts ! i))"
proof (induction ts arbitrary: s i)
  case Nil
  then show ?case by simp
next
  case (Cons t ts)
  show ?case
  proof (cases i)
    case 0
    then show ?thesis by (simp add: apply_is_english_fst del: apply_is_english.simps(2))
  next
    case (Suc j)
    then have "j < length ts" using Cons.prems by simp
    then show ?thesis using Cons.IH [of j "snd (is_english d s t)"] Suc
      by (simp add: apply_is_english_fst apply_is_english_snd del: apply_is_english.simps(2))
  qed
qed

lemma is_english_failure:
  "fst (d s text) = LangDetectException \<Longrightarrow> fst (is_english (Some d) s text) = False"
  by (cases "d s text") (auto simp: is_english_def)

lemma selected_index:
  assumes "map fst rs = [0..<length rs]" and "length flags = length rs"
    and "x \<in> set (map fst (filter snd (zip rs flags)))"
  shows "fst x < length rs \<and> flags ! fst x"
proof -
  from assms(3) have "(x, True) \<in> set (zip rs flags)" by auto
  then obtain j where j: "j < length rs" "rs ! j = x" "flags ! j"
    using assms(2) by (auto simp: set_zip)
  have "fst (rs ! j) = [0..<length rs] ! j" using assms(1) j(1) by (metis nth_map)
  then have "fst x = j" using j by simp
  then show ?thesis using j by simp
qed

lemma project_index_subset: "fst ` set (rows (project df)) \<subseteq> fst ` set (rows df)"
proof
  fix i assume "i \<in> fst ` set (rows (project df))"
  then obtain r' where "(i, r') \<in> set (rows (project df))" by auto
  then obtain r where "(i, r) \<in> set (rows df)" using project_keeps by blast
  then show "i \<in> fst ` set (rows df)" by force
qed

lemma reconcile_text_column:
  assumes "reconcile cfg df0 = Returns df" and "ascii ''text'' \<in> set (columns df)"
  shows "text_col cfg \<in> set (columns df0) \<or> ascii ''text'' \<in> set (columns df0)"
proof -
  define m where "m = Map.empty(id_col cfg \<mapsto> ascii ''tweet_id'',
                                 date_col cfg \<mapsto> ascii ''created_at'',
                                 text_col cfg \<mapsto> ascii ''text'')"
  define bad where "bad = filter (\<lambda>col. prefix (ascii ''Unnamed'') col \<or> strip col = []) (columns df0)"
  define df1 where "df1 = (if bad \<noteq> [] then drop_columns bad df0 else df0)"
  have df: "df = assign (ascii ''year'') (S (str_int (year cfg)))
                   (assign (ascii ''label'') (S (label cfg)) (rename m df1))"
    using assms(1) unfolding reconcile_def Let_def m_def [symmetric] bad_def [symmetric] df1_def [symmetric]
    by (simp split: if_splits)
  have "set (columns df) \<subseteq> set (columns (rename m df1)) \<union> {ascii ''label'', ascii ''year''}"
    unfolding df by (auto simp: assign_def)
  then have "ascii ''text'' \<in> set (columns (rename m df1))" using assms(2) by auto
  then obtain c where c: "c \<in> set (columns df1)" "new_name m c = ascii ''text''"
    by (auto simp: rename_def)
  have "c \<in> set (columns df0)" using c(1) by (auto simp: df1_def drop_columns_def split: if_splits)
  then show ?thesis using c(2) by (auto simp: new_name_def m_def split: if_splits)
qed








section \<open>Runs of the program on the small tables\<close>

lemma digits_numeral:
  "digits (numeral k) =
     (if (numeral k :: nat) < 10 then [48 + numeral k]
      else digits (numeral k div 10) @ [48 + numeral k mod 10])"
  by (rule digits.simps)

lemmas frame_defs =
  load_and_clean_def load_and_filter_def reconcile_def clean_column_def DataFrame_def
  drop_columns_def rename_def new_name_def assign_def select_rows_def drop_duplicates_def
  dedup_def project_def fill_missing_def canonical_def records_def str_int_def is_english_def
  enumerate_eq_zip digits_numeral Let_def upt_rec

lemmas demo_defs =
  demo_world_def democrat_2020_def demo_detect_def row_of_def plain_tables_def

lemma demo_run:
  "outcome_rows (fst (load_and_clean (demo_world demo_raw) 0 democrat_2020)) =
     Returns [(0, [S (ascii ''1''), S (ascii ''hi you''), S (ascii ''democrat''), S (ascii ''2020'')]),
              (4, [S (ascii ''4''), S (ascii ''vote''), S (ascii ''democrat''), S (ascii ''2020'')])]"
  by (simp add: frame_defs text_defs demo_defs demo_raw_def del: ascii_eq)

lemma demo_stages:
  "\<exists>df df'. reconcile democrat_2020 (DataFrame demo_raw) = Returns df
     \<and> clean_column plain_tables df
         = Returns (df', [ascii ''hi you'', ascii ''other'', [], ascii ''2020!'', ascii ''vote''])"
  by (simp add: frame_defs text_defs demo_defs demo_raw_def del: ascii_eq)

lemma outcome_rows_Returns:
  "outcome_rows x = Returns v \<Longrightarrow> \<exists>df. x = Returns df \<and> map fst v = map fst (rows df) \<and> map snd v = records df"
  by (cases x) (auto simp: records_def case_prod_unfold comp_def)

lemma load_and_clean_Returns:
  "fst (load_and_clean W s cfg) = Returns out \<Longrightarrow>
     \<exists>F s'. load_and_filter W s cfg = (Returns F, s') \<and> load_and_clean W s cfg = (Returns out, s')"
  by (auto simp: load_and_clean_def split: prod.splits outcome.splits)

lemma demo_reconciled:
  "\<exists>df. reconcile democrat_2020 (DataFrame demo_raw) = Returns df
     \<and> columns df = [ascii ''tweet_id'', ascii ''text'', ascii ''created_at'', ascii ''label'', ascii ''year'']"
  by (simp add: reconcile_def DataFrame_def drop_columns_def rename_def new_name_def assign_def
      Let_def demo_raw_def democrat_2020_def text_defs del: ascii_eq)


section \<open>Properties of is\_english and load\_and\_clean\<close>

text \<open>
  C3 (as the code behaves). \<open>rename\<close> ignores a configured column that the table does
  not have, so nothing is raised for an absent id or date column: the date column is
  never read, and without \<open>tweet_id\<close> deduplication goes by text and the output's
  \<open>tweet_id\<close> is filled with the empty string. What raises is \<open>df["text"]\<close>: when the
  reconciled table has no column \<open>text\<close> (so when the configured text column is absent
  and no column of the table is itself called \<open>text\<close>), \<open>load_and_clean\<close> raises
  \<open>KeyError\<close>, returns no dataset and leaves the detector untouched; whenever that
  column exists and the table has a row, it returns a dataset.
\<close>

theorem missing_text_column_raises:
  assumes csv: "read_csv W (path cfg) = Returns raw"
    and rec: "reconcile cfg (DataFrame raw) = Returns df"
  shows "(text_col cfg \<notin> set (header raw) \<and> ascii ''text'' \<notin> set (header raw)
            \<longrightarrow> ascii ''text'' \<notin> set (columns df))
         \<and> (ascii ''text'' \<notin> set (columns df)
            \<longrightarrow> load_and_clean W s cfg = (Raises (KeyError (ascii ''text'')), s))
         \<and> (ascii ''text'' \<in> set (columns df) \<and> body raw \<noteq> []
            \<longrightarrow> (\<exists>out s'. load_and_clean W s cfg = (Returns out, s')))"
proof (intro conjI impI)
  assume "text_col cfg \<notin> set (header raw) \<and> ascii ''text'' \<notin> set (header raw)"
  then show "ascii ''text'' \<notin> set (columns df)"
    using reconcile_text_column [OF rec] by (auto simp: DataFrame_def)
next
  assume "ascii ''text'' \<notin> set (columns df)"
  then show "load_and_clean W s cfg = (Raises (KeyError (ascii ''text'')), s)"
    by (simp add: load_and_clean_def load_and_filter_def csv rec clean_column_def)
next
  assume a: "ascii ''text'' \<in> set (columns df) \<and> body raw \<noteq> []"
  have "map fst (rows df) = [0..<length (body raw)]"
    using reconcile_index [OF rec] DataFrame_index [of raw] by simp
  then have "length (rows df) = length (body raw)"
    by (metis length_map length_upt minus_nat.diff_0)
  then have "rows df \<noteq> []" using a by auto
  then show "\<exists>out s'. load_and_clean W s cfg = (Returns out, s')"
    using a
    by (simp add: load_and_clean_def load_and_filter_def csv rec clean_column_def Let_def
        split: prod.splits)
qed

theorem missing_text_column_raises_witness:
  "read_csv (demo_world raw_no_text) (path democrat_2020) = Returns raw_no_text
   \<and> (\<exists>df. reconcile democrat_2020 (DataFrame raw_no_text) = Returns df)
   \<and> text_col democrat_2020 \<notin> set (header raw_no_text) \<and> ascii ''text'' \<notin> set (header raw_no_text)
   \<and> load_and_clean (demo_world raw_no_text) 0 democrat_2020 = (Raises (KeyError (ascii ''text'')), 0)
   \<and> read_csv (demo_world demo_raw) (path democrat_2020) = Returns demo_raw
   \<and> (\<exists>df. reconcile democrat_2020 (DataFrame demo_raw) = Returns df \<and> ascii ''text'' \<in> set (columns df))
   \<and> body demo_raw \<noteq> []
   \<and> (\<exists>out s'. load_and_clean (demo_world demo_raw) 0 democrat_2020 = (Returns out, s'))"
proof -
  have csv: "read_csv (demo_world raw_no_text) (path democrat_2020) = Returns raw_no_text"
    by (simp add: demo_world_def)
  have "\<exists>df. reconcile democrat_2020 (DataFrame raw_no_text) = Returns df"
    by (simp add: reconcile_def DataFrame_def drop_columns_def rename_def new_name_def assign_def
        Let_def raw_no_text_def democrat_2020_def text_defs del: ascii_eq)
  then obtain df where rec: "reconcile democrat_2020 (DataFrame raw_no_text) = Returns df" by blast
  have absent: "text_col democrat_2020 \<notin> set (header raw_no_text) \<and> ascii ''text'' \<notin> set (header raw_no_text)"
    by (simp add: raw_no_text_def democrat_2020_def)
  have csv2: "read_csv (demo_world demo_raw) (path democrat_2020) = Returns demo_raw"
    by (simp add: demo_world_def)
  obtain df2 where rec2: "reconcile democrat_2020 (DataFrame demo_raw) = Returns df2"
    and present: "ascii ''text'' \<in> set (columns df2)"
    using demo_reconciled by auto
  have rows2: "body demo_raw \<noteq> []" by (simp add: demo_raw_def)
  show ?thesis
    using missing_text_column_raises [OF csv rec, of 0] missing_text_column_raises [OF csv2 rec2, of 0]
      csv rec absent csv2 rec2 present rows2
    by blast
qed

text \<open>
  With the 2020 configuration and a table that has the text column \<open>tweet\<close> but neither
  the id column \<open>tweet_id\<close> nor the date column \<open>created_at\<close>, \<open>load_and_clean\<close> returns a
  dataset.
\<close>

theorem missing_column_counterexample:
  "id_col democrat_2020 \<notin> set (header raw_text_only)
   \<and> date_col democrat_2020 \<notin> set (header raw_text_only)
   \<and> outcome_rows (fst (load_and_clean (demo_world raw_text_only) 0 democrat_2020)) =
       Returns [(0, [S [], S (ascii ''hi you''), S (ascii ''democrat''), S (ascii ''2020'')])]"
  by (simp add: frame_defs text_defs demo_defs raw_text_only_def del: ascii_eq)





text \<open>
  C5. Every record in the output of \<open>load_and_clean\<close> has a string as text, and not
  the empty one.
\<close>

theorem load_and_clean_text_nonempty:
  assumes "load_and_clean W s cfg = (Returns out, s')" and "(i, r) \<in> set (rows out)"
  shows "\<exists>t. r (ascii ''text'') = S t \<and> t \<noteq> []"
proof -
  obtain F where filt: "load_and_filter W s cfg = (Returns F, s')" and out: "out = project (dedup F)"
    using assms(1) by (auto simp: load_and_clean_def split: outcome.splits prod.splits)
  obtain r0 where r0: "(i, r0) \<in> set (rows (dedup F))"
      and eq: "\<forall>c \<in> set (columns (dedup F)). r c = r0 c"
    using project_keeps [of i r "dedup F"] assms(2) out by blast
  have "(i, r0) \<in> set (rows F)" using r0 dedup_subset by blast
  then obtain t where "r0 (ascii ''text'') = S t \<and> t \<noteq> []"
    using load_and_filter_text(2) [OF filt] by blast
  moreover have "r (ascii ''text'') = r0 (ascii ''text'')"
    using eq load_and_filter_text(1) [OF filt] by simp
  ultimately show ?thesis by simp
qed

theorem load_and_clean_text_nonempty_witness:
  "\<exists>out s' i r. load_and_clean (demo_world demo_raw) 0 democrat_2020 = (Returns out, s')
     \<and> (i, r) \<in> set (rows out) \<and> (\<exists>t. r (ascii ''text'') = S t \<and> t \<noteq> [])"
proof -
  obtain out where out: "fst (load_and_clean (demo_world demo_raw) 0 democrat_2020) = Returns out"
    and idx: "map fst (rows out) = [0, 4]"
    using outcome_rows_Returns [OF demo_run] by auto
  obtain s' where run: "load_and_clean (demo_world demo_raw) 0 democrat_2020 = (Returns out, s')"
    using load_and_clean_Returns [OF out] by blast
  from idx obtain x where x: "x \<in> set (rows out)" by (cases "rows out") auto
  obtain i r where ir: "x = (i, r)" by (cases x)
  show ?thesis
    using load_and_clean_text_nonempty [OF run, of i r] x ir run by blast
qed

text \<open>
  C6. When the detector raises \<open>LangDetectException\<close> on the cleaned text of row \<open>i\<close>, in
  the state the detector has reached after the rows before it, \<open>is_english\<close> answers
  False for that row, \<open>load_and_clean\<close> still returns a dataset, and no row of the
  output carries the index label \<open>i\<close>.
\<close>

theorem detection_failure_excludes_record:
  assumes csv: "read_csv W (path cfg) = Returns raw"
    and rec: "reconcile cfg (DataFrame raw) = Returns df"
    and cc: "clean_column (unicode W) df = Returns (df', texts)"
    and det: "detect W = Some d"
    and i: "i < length texts"
    and fail: "fst (d (snd (apply_is_english (Some d) s (take i texts))) (texts ! i)) = LangDetectException"
  shows "fst (is_english (Some d) (snd (apply_is_english (Some d) s (take i texts))) (texts ! i)) = False
         \<and> (\<exists>out s'. load_and_clean W s cfg = (Returns out, s') \<and> i \<notin> fst ` set (rows out))"
proof -
  define flags where "flags = fst (apply_is_english (Some d) s texts)"
  define s' where "s' = snd (apply_is_english (Some d) s texts)"
  define F1 where "F1 = select_rows flags df'"
  define F where "F = select_rows (map (\<lambda>(i, r). truthy (r (ascii ''text''))) (rows F1)) F1"
  have ap: "apply_is_english (detect W) s texts = (flags, s')"
    by (simp add: flags_def s'_def det)
  have ne: "texts \<noteq> []" using i by auto
  have filt: "load_and_filter W s cfg = (Returns F, s')"
    by (simp add: load_and_filter_def csv rec cc ap ne F_def F1_def Let_def)
  then have run: "load_and_clean W s cfg = (Returns (project (dedup F)), s')"
    by (simp add: load_and_clean_def)
  have first: "fst (is_english (Some d) (snd (apply_is_english (Some d) s (take i texts))) (texts ! i)) = False"
    using fail by (rule is_english_failure)
  then have off: "\<not> flags ! i"
    using apply_is_english_nth [OF i, of "Some d" s] by (simp add: flags_def)
  have idx: "map fst (rows df') = [0..<length (rows df')]"
    using clean_column_index(1) [OF cc] reconcile_index [OF rec] DataFrame_index [of raw]
    by (metis length_map length_upt minus_nat.diff_0)
  have len: "length flags = length (rows df')"
    using apply_is_english_length [of "Some d" s texts] clean_column_index [OF cc]
    by (metis flags_def length_map)
  have "i \<notin> fst ` set (rows F1)"
  proof
    assume "i \<in> fst ` set (rows F1)"
    then obtain x where x: "x \<in> set (map fst (filter snd (zip (rows df') flags)))" "fst x = i"
      by (auto simp: F1_def select_rows_def)
    then show False using selected_index [OF idx len x(1)] off by simp
  qed
  moreover have "fst ` set (rows (project (dedup F))) \<subseteq> fst ` set (rows F1)"
    using project_index_subset [of "dedup F"] dedup_subset [of F]
      select_rows_subset [of "map (\<lambda>(i, r). truthy (r (ascii ''text''))) (rows F1)" F1]
    unfolding F_def [symmetric] by blast
  ultimately have "i \<notin> fst ` set (rows (project (dedup F)))" by blast
  then show ?thesis using first run by blast
qed

theorem detection_failure_excludes_record_witness:
  "read_csv (demo_world demo_raw) (path democrat_2020) = Returns demo_raw
   \<and> detect (demo_world demo_raw) = Some demo_detect
   \<and> (\<exists>df df' texts.
         reconcile democrat_2020 (DataFrame demo_raw) = Returns df
       \<and> clean_column (unicode (demo_world demo_raw)) df = Returns (df', texts)
       \<and> 3 < length texts \<and> texts ! 3 = ascii ''2020!''
       \<and> fst (demo_detect (snd (apply_is_english (Some demo_detect) 0 (take 3 texts))) (texts ! 3))
           = LangDetectException
       \<and> fst (is_english (Some demo_detect) (snd (apply_is_english (Some demo_detect) 0 (take 3 texts)))
                (texts ! 3)) = False
       \<and> (\<exists>out s'. load_and_clean (demo_world demo_raw) 0 democrat_2020 = (Returns out, s')
             \<and> 3 \<notin> fst ` set (rows out)))"
proof -
  define texts where "texts = [ascii ''hi you'', ascii ''other'', [], ascii ''2020!'', ascii ''vote'']"
  have csv: "read_csv (demo_world demo_raw) (path democrat_2020) = Returns demo_raw"
    and det: "detect (demo_world demo_raw) = Some demo_detect"
    by (simp_all add: demo_world_def)
  obtain df df' where rec: "reconcile democrat_2020 (DataFrame demo_raw) = Returns df"
    and cc: "clean_column (unicode (demo_world demo_raw)) df = Returns (df', texts)"
    using demo_stages by (auto simp: demo_world_def texts_def)
  have i: "3 < length texts" and t3: "texts ! 3 = ascii ''2020!''" by (simp_all add: texts_def)
  have fail: "fst (demo_detect (snd (apply_is_english (Some demo_detect) 0 (take 3 texts))) (texts ! 3))
                = LangDetectException"
    by (simp add: texts_def demo_detect_def ascii_def)
  show ?thesis
    using detection_failure_excludes_record [OF csv rec cc det i fail] csv det rec cc i t3 fail
    by blast
qed




end
